theory Spec2Isabelle
  imports Complex_Main
begin

section \<open>The parsed document (download\_kegg\_pathways\_db.py)\<close>

text \<open>
  The extractor works on the tree that the HTML parser returns. A node of that tree is a
  piece of text or an element with a tag name, the values of its \<open>class\<close> attribute and
  its children in document order. No other attribute is read by the script. A character
  of the model stands for one code point below 256.
\<close>

datatype node = Text string | Tag string "string list" "node list"

type_synonym located = "node \<times> node list"
  \<comment> \<open>an element together with the siblings that follow it under its parent\<close>

fun tag_name :: "node \<Rightarrow> string option" where
  "tag_name (Text s) = None"
| "tag_name (Tag n cs ch) = Some n"

fun children :: "node \<Rightarrow> node list" where
  "children (Text s) = []"
| "children (Tag n cs ch) = ch"

text \<open>\<open>.text\<close>: all strings below the node, concatenated in document order.\<close>

fun get_text :: "node \<Rightarrow> string" where
  "get_text (Text s) = s"
| "get_text (Tag n cs ch) = concat (map get_text ch)"

text \<open>
  The elements below a list of siblings, in document order (an element before its
  descendants, these before its later siblings), each with its following siblings.
\<close>

fun descendants :: "node list \<Rightarrow> located list" where
  "descendants [] = []"
| "descendants (Text s # rest) = descendants rest"
| "descendants (Tag n cs ch # rest) = (Tag n cs ch, rest) # descendants ch @ descendants rest"

text \<open>\<open>find_all(name)\<close> called on the document (a list of top-level nodes) or on an element.\<close>

definition find_all_in :: "string \<Rightarrow> node list \<Rightarrow> located list" where
  "find_all_in nm ns = filter (\<lambda>p. tag_name (fst p) = Some nm) (descendants ns)"

definition find_all :: "string \<Rightarrow> node \<Rightarrow> located list" where
  "find_all nm e = find_all_in nm (children e)"

text \<open>\<open>find(name)\<close>: the first result of \<open>find_all\<close>, or nothing.\<close>

definition find_first :: "string \<Rightarrow> node \<Rightarrow> node option" where
  "find_first nm e = (case find_all nm e of [] \<Rightarrow> None | p # _ \<Rightarrow> Some (fst p))"

text \<open>
  \<open>find_next_sibling(name)\<close> and \<open>find_next_sibling('div', class_='list')\<close>: the first of
  the following siblings that matches, at whatever distance.
\<close>

fun is_tag :: "string \<Rightarrow> node \<Rightarrow> bool" where
  "is_tag nm (Text s) = False"
| "is_tag nm (Tag n cs ch) = (n = nm)"

fun is_div_list :: "node \<Rightarrow> bool" where
  "is_div_list (Text s) = False"
| "is_div_list (Tag n cs ch) = (n = ''div'' \<and> ''list'' \<in> set cs)"

definition find_next_sibling :: "(node \<Rightarrow> bool) \<Rightarrow> node list \<Rightarrow> node option" where
  "find_next_sibling p sibs = List.find p sibs"

subsection \<open>String helpers\<close>

definition isspace :: "char \<Rightarrow> bool" where
  "isspace c = (c \<in> {CHR 0x09, CHR 0x0A, CHR 0x0B, CHR 0x0C, CHR 0x0D, CHR 0x1C, CHR 0x1D,
                      CHR 0x1E, CHR 0x1F, CHR '' '', CHR 0x85, CHR 0xA0})"

definition strip :: "string \<Rightarrow> string" where
  "strip s = rev (dropWhile isspace (rev (dropWhile isspace s)))"

text \<open>\<open>s.split(' ', 1)[-1]\<close>: what follows the first space, or all of \<open>s\<close> when it has none.\<close>

definition after_first_space :: "string \<Rightarrow> string" where
  "after_first_space s = (case dropWhile (\<lambda>c. c \<noteq> CHR '' '') s of [] \<Rightarrow> s | _ # r \<Rightarrow> r)"

text \<open>\<open>x.text.strip().split(' ', 1)[-1].strip()\<close>, the name of a heading or of a bold label.\<close>

definition name_of :: "node \<Rightarrow> string" where
  "name_of e = strip (after_first_space (strip (get_text e)))"

subsection \<open>Records and the extractor\<close>

record pathway =
  Category :: string
  Sub_category :: string
  Pathway_ID :: string
  Pathway_Name :: string

text \<open>The body of the loop over \<open>dt\<close> elements; \<open>data\<close> is the global list it appends to.\<close>

definition extract_dt :: "string \<Rightarrow> string \<Rightarrow> located \<Rightarrow> pathway list \<Rightarrow> pathway list" where
  "extract_dt category_name subcategory_name p data =
     (let id_code = strip (get_text (fst p)) in
      if id_code \<noteq> [] \<and> length id_code \<ge> 5 then
        (case find_next_sibling (is_tag ''dd'') (snd p) of
           None \<Rightarrow> data
         | Some dd_tag \<Rightarrow>
             (case find_first ''a'' dd_tag of
                None \<Rightarrow> data
              | Some a_tag \<Rightarrow>
                  data @ [\<lparr>Category = category_name, Sub_category = subcategory_name,
                           Pathway_ID = ''>'' @ id_code @ '' <'',
                           Pathway_Name = strip (get_text a_tag)\<rparr>]))
      else data)"

definition extract_pathways ::
  "node list \<Rightarrow> string \<Rightarrow> string \<Rightarrow> pathway list \<Rightarrow> pathway list" where
  "extract_pathways dl_elements category_name subcategory_name data =
     fold (\<lambda>dl. fold (extract_dt category_name subcategory_name) (find_all ''dt'' dl))
       dl_elements data"

text \<open>The body of the loops over bold labels (both passes use it).\<close>

definition process_b :: "string \<Rightarrow> located \<Rightarrow> pathway list \<Rightarrow> pathway list" where
  "process_b category_name b data =
     (let subcategory_name = name_of (fst b) in
      case find_next_sibling is_div_list (snd b) of
        None \<Rightarrow> data
      | Some subcategory_dl \<Rightarrow>
          extract_pathways (map fst (find_all ''dl'' subcategory_dl))
            category_name subcategory_name data)"

text \<open>The body of the loop over the \<open>h4\<close> headings.\<close>

definition process_category :: "located \<Rightarrow> pathway list \<Rightarrow> pathway list" where
  "process_category category data =
     (let category_name = name_of (fst category) in
      case find_next_sibling is_div_list (snd category) of
        None \<Rightarrow> data
      | Some subcategories \<Rightarrow>
          fold (process_b category_name) (find_all ''b'' subcategories) data)"

definition category_pass :: "node list \<Rightarrow> pathway list \<Rightarrow> pathway list" where
  "category_pass soup data = fold process_category (find_all_in ''h4'' soup) data"

definition additional_pass :: "node list \<Rightarrow> pathway list \<Rightarrow> pathway list" where
  "additional_pass soup data = fold (process_b ''N/A'') (find_all_in ''b'' soup) data"

text \<open>A full run: \<open>data\<close> starts empty, both passes append to it, and it is exported.\<close>

definition run_extractor :: "node list \<Rightarrow> pathway list" where
  "run_extractor soup = additional_pass soup (category_pass soup [])"

text \<open>
  The minimal document of the end-to-end scenario: a definition list with the two terms,
  the 6-character one with a linked definition. In the nested layout the heading is
  followed by a list container that holds the bold label and the list container of the
  definition list (the nesting the category-scoped pass reads); in the flat layout the
  heading, the label and the one list container are siblings.
\<close>

definition minimal_dl :: "string \<Rightarrow> string \<Rightarrow> string \<Rightarrow> node" where
  "minimal_dl link_text short_term short_link =
     Tag ''dl'' []
       [Tag ''dt'' [] [Text ''ABC123''],
        Tag ''dd'' [] [Tag ''a'' [] [Text link_text]],
        Tag ''dt'' [] [Text short_term],
        Tag ''dd'' [] [Tag ''a'' [] [Text short_link]]]"

definition nested_document :: "string \<Rightarrow> string \<Rightarrow> node \<Rightarrow> node list" where
  "nested_document heading label dl =
     [Tag ''h4'' [] [Text heading],
      Tag ''div'' [''list'']
        [Tag ''b'' [] [Text label],
         Tag ''div'' [''list''] [dl]]]"

definition flat_document :: "string \<Rightarrow> string \<Rightarrow> node \<Rightarrow> node list" where
  "flat_document heading label dl =
     [Tag ''h4'' [] [Text heading],
      Tag ''b'' [] [Text label],
      Tag ''div'' [''list''] [dl]]"

text \<open>
  Two further documents. A definition list of linked terms; a document in which the
  container of the first label comes after a wrapper that holds the second label and its
  container; and a document whose definition list holds another one inside a definition.
\<close>

definition term_dl :: "(string \<times> string) list \<Rightarrow> node" where
  "term_dl pairs =
     Tag ''dl'' [] (concat (map (\<lambda>(t, n). [Tag ''dt'' [] [Text t], Tag ''dd'' [] [Tag ''a'' [] [Text n]]]) pairs))"

definition crossed_document :: "node list" where
  "crossed_document =
     [Tag ''b'' [] [Text ''1.1 First''],
      Tag ''div'' []
        [Tag ''b'' [] [Text ''1.2 Second''],
         Tag ''div'' [''list''] [term_dl [(''AAAAA'', ''Alpha'')]]],
      Tag ''div'' [''list''] [term_dl [(''BBBBB'', ''Beta'')]]]"

definition nested_dl_document :: "node list" where
  "nested_dl_document =
     [Tag ''b'' [] [Text ''1.1 First''],
      Tag ''div'' [''list'']
        [Tag ''dl'' []
           [Tag ''dt'' [] [Text ''AAAAA''], Tag ''dd'' [] [Tag ''a'' [] [Text ''Alpha'']],
            Tag ''dd'' [] [term_dl [(''BBBBB'', ''Beta'')]],
            Tag ''dt'' [] [Text ''CCCCC''], Tag ''dd'' [] [Tag ''a'' [] [Text ''Gamma'']]]]]"

section \<open>Floating-point columns\<close>

text \<open>
  A float of a table is not-a-number, an infinity or a finite value. Finite values are
  taken as the reals they denote: rounding is not modelled. Comparisons with NaN are false.
\<close>

datatype float64 = NaN | NegInf | Finite real | PosInf

fun float_le :: "float64 \<Rightarrow> float64 \<Rightarrow> bool" where
  "float_le NaN y = False"
| "float_le x NaN = False"
| "float_le NegInf y = True"
| "float_le x PosInf = True"
| "float_le (Finite a) (Finite b) = (a \<le> b)"
| "float_le x y = False"


text \<open>\<open>-np.log10(x)\<close>: the logarithm of zero is minus infinity, of a negative number NaN.\<close>

fun neg_log10 :: "float64 \<Rightarrow> float64" where
  "neg_log10 NaN = NaN"
| "neg_log10 NegInf = NaN"
| "neg_log10 PosInf = NegInf"
| "neg_log10 (Finite p) =
     (if p < 0 then NaN else if p = 0 then PosInf else Finite (- log 10 p))"

section \<open>The GO-terms plot (go\_plots\_300724.py)\<close>

record go_row =
  Term :: string
  Count :: int
  Pvalue :: float64
  group_col :: string

record go_row_log = go_row +
  neg_log_Pvalue :: float64

text \<open>\<open>df = df[df['Pvalue'] <= 0.05]\<close>\<close>

definition filter_Pvalue :: "go_row list \<Rightarrow> go_row list" where
  "filter_Pvalue df = filter (\<lambda>r. float_le (Pvalue r) (Finite 0.05)) df"

text \<open>\<open>df['-log(Pvalue)'] = -np.log10(df['Pvalue'])\<close>\<close>

definition add_neg_log :: "go_row list \<Rightarrow> go_row_log list" where
  "add_neg_log df =
     map (\<lambda>r. \<lparr>Term = Term r, Count = Count r, Pvalue = Pvalue r, group_col = group_col r,
               neg_log_Pvalue = neg_log10 (Pvalue r)\<rparr>) df"

text \<open>\<open>df['Term'] = df['Term'].apply(lambda x: x[:35] if len(x) > 35 else x)\<close>\<close>

definition truncate_Term :: "go_row_log list \<Rightarrow> go_row_log list" where
  "truncate_Term df =
     map (\<lambda>r. r\<lparr>Term := (if length (Term r) > 35 then take 35 (Term r) else Term r)\<rparr>) df"

definition go_table :: "go_row list \<Rightarrow> go_row_log list" where
  "go_table csv = truncate_Term (add_neg_log (filter_Pvalue csv))"

text \<open>\<open>unique()\<close>: the distinct values in the order of their first appearance.\<close>

fun unique :: "'a list \<Rightarrow> 'a list" where
  "unique [] = []"
| "unique (x # xs) = x # unique (filter (\<lambda>y. y \<noteq> x) xs)"

definition groups :: "go_row list \<Rightarrow> string list" where
  "groups csv = unique (map group_col (go_table csv))"

text \<open>
  \<open>nlargest(n, 'Count')\<close>: the \<open>n\<close> rows of largest count, largest first, rows of equal
  count in the order of the table.
\<close>

definition nlargest :: "nat \<Rightarrow> go_row_log list \<Rightarrow> go_row_log list" where
  "nlargest n df = take n (sort_key (\<lambda>r. - Count r) df)"

text \<open>The rows drawn as bars in the subplot of one group (\<open>df_group_top\<close>).\<close>

definition df_group_top :: "go_row list \<Rightarrow> string \<Rightarrow> go_row_log list" where
  "df_group_top csv g = nlargest 100 (filter (\<lambda>r. group_col r = g) (go_table csv))"

section \<open>The KEGG enrichment plot (kegg\_paths\_plot.py)\<close>

subsection \<open>Cleaning the pathway IDs\<close>

text \<open>
  \<open>replace('ko', '', regex=True)\<close>: one scan from the left that deletes each match of the
  pattern \<open>ko\<close> and copies every other character.
\<close>

fun replace_ko :: "string \<Rightarrow> string" where
  "replace_ko [] = []"
| "replace_ko [c] = [c]"
| "replace_ko (c # d # s) =
     (if c = CHR ''k'' \<and> d = CHR ''o'' then replace_ko s else c # replace_ko (d # s))"

text \<open>\<open>str.zfill(width)\<close>: zeros on the left up to the width, after a leading sign.\<close>

definition zfill :: "nat \<Rightarrow> string \<Rightarrow> string" where
  "zfill width s =
     (if length s \<ge> width then s
      else case s of
        c # r \<Rightarrow>
          (if c = CHR ''+'' \<or> c = CHR ''-''
           then c # replicate (width - length s) CHR ''0'' @ r
           else replicate (width - length s) CHR ''0'' @ s)
      | [] \<Rightarrow> replicate width CHR ''0'')"

definition clean_Pathway_ID :: "string \<Rightarrow> string" where
  "clean_Pathway_ID s = zfill 5 (replace_ko s)"

subsection \<open>Files and failures\<close>













section \<open>The virus-copies plot (Virus copies\_article3a.py)\<close>









section \<open>Properties of the extractor\<close>

subsection \<open>Every loop body only appends\<close>

lemma fold_appending:
  assumes "\<And>x d. f x d = d @ f x []"
  shows "fold f xs d = d @ concat (map (\<lambda>x. f x []) xs)"
proof (induction xs arbitrary: d)
  case Nil
  show ?case by simp
next
  case (Cons x xs)
  have "fold f (x # xs) d = fold f xs (f x d)" by simp
  also have "\<dots> = f x d @ concat (map (\<lambda>x. f x []) xs)" by (rule Cons.IH)
  also have "f x d = d @ f x []" by (rule assms)
  finally show ?case by simp
qed

lemma extract_dt_append: "extract_dt c s p data = data @ extract_dt c s p []"
  by (simp add: extract_dt_def Let_def split: option.splits)

lemma extract_dl_append:
  "fold (extract_dt c s) (find_all ''dt'' dl) data
     = data @ fold (extract_dt c s) (find_all ''dt'' dl) []"
  using fold_appending [of "extract_dt c s", OF extract_dt_append] by simp

lemma extract_pathways_append:
  "extract_pathways dls c s data = data @ extract_pathways dls c s []"
  unfolding extract_pathways_def
  using fold_appending [of "\<lambda>dl. fold (extract_dt c s) (find_all ''dt'' dl)" dls data,
          OF extract_dl_append]
    fold_appending [of "\<lambda>dl. fold (extract_dt c s) (find_all ''dt'' dl)" dls "[]",
          OF extract_dl_append]
  by simp

lemma process_b_append: "process_b c b data = data @ process_b c b []"
  using extract_pathways_append [of _ c _ data]
  by (simp add: process_b_def Let_def split: option.splits)

lemma process_category_append: "process_category h data = data @ process_category h []"
proof (cases "find_next_sibling is_div_list (snd h)")
  case None
  then show ?thesis by (simp add: process_category_def)
next
  case (Some d)
  have "fold (process_b (name_of (fst h))) (find_all ''b'' d) data
      = data @ fold (process_b (name_of (fst h))) (find_all ''b'' d) []"
    using fold_appending [of "process_b (name_of (fst h))", OF process_b_append] by simp
  with Some show ?thesis by (simp add: process_category_def)
qed

lemma category_pass_append: "category_pass soup data = data @ category_pass soup []"
  unfolding category_pass_def
  using fold_appending [of process_category, OF process_category_append] by simp

lemma additional_pass_append: "additional_pass soup data = data @ additional_pass soup []"
  unfolding additional_pass_def
  using fold_appending [of "process_b ''N/A''", OF process_b_append] by simp

lemma run_extractor_passes:
  "run_extractor soup = category_pass soup [] @ additional_pass soup []"
  unfolding run_extractor_def by (rule additional_pass_append)

subsection \<open>The minimal document\<close>

lemma strip_ABC123: "strip ''ABC123'' = ''ABC123''"
  by (simp add: strip_def isspace_def)

lemma strip_XYZ: "strip ''XYZ'' = ''XYZ''"
  by (simp add: strip_def isspace_def)

lemma minimal_dl_terms:
  "find_all ''dt'' (minimal_dl link_text short_term short_link) =
     [(Tag ''dt'' [] [Text ''ABC123''],
         [Tag ''dd'' [] [Tag ''a'' [] [Text link_text]], Tag ''dt'' [] [Text short_term],
          Tag ''dd'' [] [Tag ''a'' [] [Text short_link]]]),
      (Tag ''dt'' [] [Text short_term], [Tag ''dd'' [] [Tag ''a'' [] [Text short_link]]])]"
  by (simp add: find_all_def find_all_in_def minimal_dl_def)

lemma minimal_dl_no_heading_or_label:
  "find_all_in ''h4'' [minimal_dl link_text short_term short_link] = []"
  "find_all_in ''b'' [minimal_dl link_text short_term short_link] = []"
  by (simp_all add: find_all_in_def minimal_dl_def)

lemma minimal_label_records:
  assumes "length (strip short_term) < 5"
  shows "process_b c (Tag ''b'' [] [Text label],
         [Tag ''div'' [''list''] [minimal_dl link_text short_term short_link]]) []
     = [\<lparr>Category = c, Sub_category = strip (after_first_space (strip label)),
         Pathway_ID = ''>ABC123 <'', Pathway_Name = strip link_text\<rparr>]"
  using assms
  by (simp add: process_b_def name_of_def find_next_sibling_def extract_pathways_def minimal_dl_def
      find_all_def find_all_in_def extract_dt_def find_first_def strip_ABC123 Let_def)

lemma nested_document_passes:
  assumes "length (strip short_term) < 5"
  shows "category_pass (nested_document heading label (minimal_dl link_text short_term short_link)) []
     = [\<lparr>Category = strip (after_first_space (strip heading)),
         Sub_category = strip (after_first_space (strip label)),
         Pathway_ID = ''>ABC123 <'', Pathway_Name = strip link_text\<rparr>]"
   and "additional_pass (nested_document heading label (minimal_dl link_text short_term short_link)) []
     = [\<lparr>Category = ''N/A'',
         Sub_category = strip (after_first_space (strip label)),
         Pathway_ID = ''>ABC123 <'', Pathway_Name = strip link_text\<rparr>]"
proof -
  let ?dl = "minimal_dl link_text short_term short_link"
  let ?b = "(Tag ''b'' [] [Text label], [Tag ''div'' [''list''] [?dl]])"
  let ?h = "(Tag ''h4'' [] [Text heading],
          [Tag ''div'' [''list''] [Tag ''b'' [] [Text label], Tag ''div'' [''list''] [?dl]]])"
  have no: "filter (\<lambda>p. tag_name (fst p) = Some ''h4'') (descendants [?dl]) = []"
    "filter (\<lambda>p. tag_name (fst p) = Some ''b'') (descendants [?dl]) = []"
    using minimal_dl_no_heading_or_label [of link_text short_term short_link]
    by (simp_all add: find_all_in_def)
  have h4: "find_all_in ''h4'' (nested_document heading label ?dl) = [?h]"
    by (simp add: find_all_in_def nested_document_def no)
  have bs: "find_all_in ''b'' (nested_document heading label ?dl) = [?b]"
    by (simp add: find_all_in_def nested_document_def no)
  have cat: "process_category ?h [] = process_b (strip (after_first_space (strip heading))) ?b []"
    by (simp add: process_category_def find_next_sibling_def name_of_def find_all_def
        find_all_in_def no)
  show "category_pass (nested_document heading label ?dl) []
     = [\<lparr>Category = strip (after_first_space (strip heading)),
         Sub_category = strip (after_first_space (strip label)),
         Pathway_ID = ''>ABC123 <'', Pathway_Name = strip link_text\<rparr>]"
    by (simp add: category_pass_def h4 cat minimal_label_records [OF assms])
  show "additional_pass (nested_document heading label ?dl) []
     = [\<lparr>Category = ''N/A'',
         Sub_category = strip (after_first_space (strip label)),
         Pathway_ID = ''>ABC123 <'', Pathway_Name = strip link_text\<rparr>]"
    by (simp add: additional_pass_def bs minimal_label_records [OF assms])
qed





text \<open>
  Claim C3: in \<open>extract_pathways\<close>, a term/definition pair at any position of a definition
  list adds nothing to \<open>data\<close> when the stripped term text is empty or shorter than 5
  characters, or no \<open>dd\<close> sibling follows the term, or that \<open>dd\<close> holds no link, and adds
  exactly one record otherwise; in both cases the loop goes on with the pairs after it
  and with the remaining definition lists.
\<close>

theorem extract_pathways_pair:
  assumes "find_all ''dt'' dl = before @ (dt, sibs) # later"
  shows "extract_pathways (dl # dls) c s data =
     extract_pathways dls c s
       (fold (extract_dt c s) later
          (let seen = fold (extract_dt c s) before data; t = strip (get_text dt) in
           if t = [] \<or> length t < 5 \<or> find_next_sibling (is_tag ''dd'') sibs = None
              \<or> (\<exists>dd. find_next_sibling (is_tag ''dd'') sibs = Some dd \<and> find_first ''a'' dd = None)
           then seen
           else seen @ [\<lparr>Category = c, Sub_category = s, Pathway_ID = ''>'' @ t @ '' <'',
                  Pathway_Name = strip (get_text (the (find_first ''a''
                     (the (find_next_sibling (is_tag ''dd'') sibs)))))\<rparr>]))"
proof -
  let ?seen = "fold (extract_dt c s) before data"
  have step: "extract_dt c s (dt, sibs) ?seen =
     (let t = strip (get_text dt) in
           if t = [] \<or> length t < 5 \<or> find_next_sibling (is_tag ''dd'') sibs = None
              \<or> (\<exists>dd. find_next_sibling (is_tag ''dd'') sibs = Some dd \<and> find_first ''a'' dd = None)
           then ?seen
           else ?seen @ [\<lparr>Category = c, Sub_category = s, Pathway_ID = ''>'' @ t @ '' <'',
                  Pathway_Name = strip (get_text (the (find_first ''a''
                     (the (find_next_sibling (is_tag ''dd'') sibs)))))\<rparr>])"
    by (auto simp: extract_dt_def Let_def split: option.splits)
  show ?thesis
    unfolding extract_pathways_def using assms step by (simp add: Let_def)
qed

theorem extract_pathways_pair_witness:
  "extract_pathways [minimal_dl ''Glycolysis'' ''XYZ'' ''Short''] ''Metabolism'' ''Carbohydrates'' []
     = [\<lparr>Category = ''Metabolism'', Sub_category = ''Carbohydrates'',
         Pathway_ID = ''>ABC123 <'', Pathway_Name = ''Glycolysis''\<rparr>]
   \<and> extract_pathways [minimal_dl ''Glycolysis'' ''XYZ'' ''Short''] ''Metabolism'' ''Carbohydrates'' []
     = extract_dt ''Metabolism'' ''Carbohydrates''
         (Tag ''dt'' [] [Text ''ABC123''],
          [Tag ''dd'' [] [Tag ''a'' [] [Text ''Glycolysis'']], Tag ''dt'' [] [Text ''XYZ''],
           Tag ''dd'' [] [Tag ''a'' [] [Text ''Short'']]]) []"
proof -
  let ?dtA = "Tag ''dt'' [] [Text ''ABC123'']"
  let ?sA = "[Tag ''dd'' [] [Tag ''a'' [] [Text ''Glycolysis'']], Tag ''dt'' [] [Text ''XYZ''],
          Tag ''dd'' [] [Tag ''a'' [] [Text ''Short'']]]"
  let ?dtX = "Tag ''dt'' [] [Text ''XYZ'']"
  let ?sX = "[Tag ''dd'' [] [Tag ''a'' [] [Text ''Short'']]]"
  have first: "find_all ''dt'' (minimal_dl ''Glycolysis'' ''XYZ'' ''Short'')
      = [] @ (?dtA, ?sA) # [(?dtX, ?sX)]"
    by (simp add: minimal_dl_terms)
  have second: "find_all ''dt'' (minimal_dl ''Glycolysis'' ''XYZ'' ''Short'')
      = [(?dtA, ?sA)] @ (?dtX, ?sX) # []"
    by (simp add: minimal_dl_terms)
  have name: "strip ''Glycolysis'' = ''Glycolysis''"
    by (simp add: strip_def isspace_def)
  have a: "find_first ''a'' (Tag ''dd'' [] [Tag ''a'' [] [Text ''Glycolysis'']])
       = Some (Tag ''a'' [] [Text ''Glycolysis''])"
    by (simp add: find_first_def find_all_def find_all_in_def)
  have short: "extract_dt ''Metabolism'' ''Carbohydrates'' (?dtX, ?sX) d = d" for d
    by (simp add: extract_dt_def strip_XYZ)
  have emitted: "extract_pathways [minimal_dl ''Glycolysis'' ''XYZ'' ''Short'']
       ''Metabolism'' ''Carbohydrates'' []
     = [\<lparr>Category = ''Metabolism'', Sub_category = ''Carbohydrates'',
         Pathway_ID = ''>ABC123 <'', Pathway_Name = ''Glycolysis''\<rparr>]"
    using extract_pathways_pair [OF first, of "[]" "''Metabolism''" "''Carbohydrates''" "[]"]
    by (simp add: extract_pathways_def short strip_ABC123 find_next_sibling_def a name)
  have skipped: "extract_pathways [minimal_dl ''Glycolysis'' ''XYZ'' ''Short'']
       ''Metabolism'' ''Carbohydrates'' []
     = extract_dt ''Metabolism'' ''Carbohydrates'' (?dtA, ?sA) []"
    using extract_pathways_pair [OF second, of "[]" "''Metabolism''" "''Carbohydrates''" "[]"]
    by (simp add: extract_pathways_def strip_XYZ)
  show ?thesis using emitted skipped by simp
qed

subsection \<open>Where the records of a run come from\<close>

lemma set_fold_appending:
  assumes "\<And>x d. f x d = d @ f x []"
  shows "set (fold f xs []) = (\<Union>x\<in>set xs. set (f x []))"
  using fold_appending [of f xs "[]", OF assms] by simp

lemma find_next_sibling_Some:
  "find_next_sibling p sibs = Some d \<Longrightarrow> d \<in> set sibs \<and> p d"
  unfolding find_next_sibling_def by (auto simp: find_Some_iff)

lemma find_next_sibling_first:
  assumes "\<forall>n\<in>set before. \<not> p n" and "p d"
  shows "find_next_sibling p (before @ d # after) = Some d"
  using assms unfolding find_next_sibling_def by (induction before) auto

lemma find_next_sibling_none:
  assumes "\<forall>n\<in>set sibs. \<not> p n"
  shows "find_next_sibling p sibs = None"
  using assms unfolding find_next_sibling_def by (simp add: find_None_iff)

lemma descendants_children:
  "(e, s) \<in> set (descendants ns) \<Longrightarrow> set (descendants (children e)) \<subseteq> set (descendants ns)"
  by (induction ns rule: descendants.induct) auto

lemma descendants_siblings:
  "(e, s) \<in> set (descendants ns) \<Longrightarrow> set (descendants s) \<subseteq> set (descendants ns)"
  by (induction ns rule: descendants.induct) auto

lemma sibling_located:
  "d \<in> set s \<Longrightarrow> is_div_list d \<Longrightarrow> \<exists>s'. (d, s') \<in> set (descendants s)"
proof (induction s rule: descendants.induct)
  case 1
  then show ?case by simp
next
  case (2 t rest)
  then show ?case by auto
next
  case (3 n cs ch rest)
  then show ?case by auto
qed

lemma container_descendants:
  assumes "(e, sibs) \<in> set (descendants soup)"
    and "find_next_sibling is_div_list sibs = Some d"
  shows "set (descendants (children d)) \<subseteq> set (descendants soup)"
proof -
  from find_next_sibling_Some [OF assms(2)] have "d \<in> set sibs" "is_div_list d" by simp_all
  then obtain s' where "(d, s') \<in> set (descendants sibs)"
    using sibling_located by blast
  then have "set (descendants (children d)) \<subseteq> set (descendants sibs)"
    by (rule descendants_children)
  also have "\<dots> \<subseteq> set (descendants soup)"
    using assms(1) by (rule descendants_siblings)
  finally show ?thesis .
qed

lemma find_all_in_subset: "set (find_all_in nm ns) \<subseteq> set (descendants ns)"
  by (simp add: find_all_in_def)

lemma find_all_in_mono:
  "set (descendants ms) \<subseteq> set (descendants ns) \<Longrightarrow> set (find_all_in nm ms) \<subseteq> set (find_all_in nm ns)"
  by (auto simp: find_all_in_def)

lemma find_all_in_Tag:
  "find_all_in nm (Tag n cs ch # rest) =
      (if n = nm then [(Tag n cs ch, rest)] else []) @ find_all_in nm ch @ find_all_in nm rest"
  by (simp add: find_all_in_def)

lemma extract_dt_record:
  assumes "r \<in> set (extract_dt c s p [])"
  shows "Category r = c \<and> Sub_category r = s \<and> 5 \<le> length (strip (get_text (fst p)))
     \<and> Pathway_ID r = ''>'' @ strip (get_text (fst p)) @ '' <''"
proof -
  let ?t = "strip (get_text (fst p))"
  from assms have ok: "?t \<noteq> [] \<and> 5 \<le> length ?t"
    by (cases "?t \<noteq> [] \<and> 5 \<le> length ?t") (simp_all add: extract_dt_def Let_def)
  with assms show ?thesis
    by (auto simp: extract_dt_def Let_def split: option.splits)
qed

lemma extract_pathways_records:
  "set (extract_pathways dls c s []) = (\<Union>dl\<in>set dls. \<Union>p\<in>set (find_all ''dt'' dl). set (extract_dt c s p []))"
proof -
  have "set (extract_pathways dls c s [])
     = (\<Union>dl\<in>set dls. set (fold (extract_dt c s) (find_all ''dt'' dl) []))"
    unfolding extract_pathways_def
    using set_fold_appending [of "\<lambda>dl. fold (extract_dt c s) (find_all ''dt'' dl)" dls,
       OF extract_dl_append] by simp
  also have "\<dots> = (\<Union>dl\<in>set dls. \<Union>p\<in>set (find_all ''dt'' dl). set (extract_dt c s p []))"
    using set_fold_appending [of "extract_dt c s", OF extract_dt_append] by simp
  finally show ?thesis .
qed

lemma process_b_records:
  "set (process_b c b []) =
     (case find_next_sibling is_div_list (snd b) of
        None \<Rightarrow> {}
      | Some d \<Rightarrow> (\<Union>dl\<in>set (find_all ''dl'' d). \<Union>p\<in>set (find_all ''dt'' (fst dl)).
           set (extract_dt c (name_of (fst b)) p [])))"
  by (auto simp: process_b_def extract_pathways_records split: option.splits)

lemma process_b_record:
  assumes "r \<in> set (process_b c b [])" and "b \<in> set (descendants soup)"
  shows "Category r = c \<and> (\<exists>p\<in>set (find_all_in ''dt'' soup).
     5 \<le> length (strip (get_text (fst p))) \<and> Pathway_ID r = ''>'' @ strip (get_text (fst p)) @ '' <'')"
proof -
  from assms(1) obtain d dl p where d: "find_next_sibling is_div_list (snd b) = Some d"
    and dl: "dl \<in> set (find_all ''dl'' d)" and p: "p \<in> set (find_all ''dt'' (fst dl))"
    and r: "r \<in> set (extract_dt c (name_of (fst b)) p [])"
    by (auto simp: process_b_records split: option.splits)
  have "(fst b, snd b) \<in> set (descendants soup)" using assms(2) by simp
  from container_descendants [OF this d]
  have sub: "set (descendants (children d)) \<subseteq> set (descendants soup)" .
  have "dl \<in> set (descendants (children d))"
    using dl find_all_in_subset by (auto simp: find_all_def)
  then have "(fst dl, snd dl) \<in> set (descendants soup)" using sub by auto
  then have "set (descendants (children (fst dl))) \<subseteq> set (descendants soup)"
    by (rule descendants_children)
  then have "set (find_all ''dt'' (fst dl)) \<subseteq> set (find_all_in ''dt'' soup)"
    unfolding find_all_def by (rule find_all_in_mono)
  with p have "p \<in> set (find_all_in ''dt'' soup)" by auto
  with extract_dt_record [OF r] show ?thesis by auto
qed

lemma additional_pass_records:
  "set (additional_pass soup []) = (\<Union>b\<in>set (find_all_in ''b'' soup). set (process_b ''N/A'' b []))"
  unfolding additional_pass_def
  using set_fold_appending [of "process_b ''N/A''", OF process_b_append] by simp

lemma process_category_records:
  "set (process_category h []) =
     (case find_next_sibling is_div_list (snd h) of
        None \<Rightarrow> {}
      | Some d \<Rightarrow> (\<Union>b\<in>set (find_all ''b'' d). set (process_b (name_of (fst h)) b [])))"
  using set_fold_appending [of "process_b (name_of (fst h))", OF process_b_append]
  by (auto simp: process_category_def split: option.splits)

lemma category_pass_records:
  "set (category_pass soup []) = (\<Union>h\<in>set (find_all_in ''h4'' soup). set (process_category h []))"
  unfolding category_pass_def
  using set_fold_appending [of process_category, OF process_category_append] by simp

lemma additional_pass_record:
  assumes "r \<in> set (additional_pass soup [])"
  shows "Category r = ''N/A'' \<and> (\<exists>p\<in>set (find_all_in ''dt'' soup).
     5 \<le> length (strip (get_text (fst p))) \<and> Pathway_ID r = ''>'' @ strip (get_text (fst p)) @ '' <'')"
proof -
  from assms obtain b where b: "b \<in> set (find_all_in ''b'' soup)"
    and r: "r \<in> set (process_b ''N/A'' b [])"
    by (auto simp: additional_pass_records)
  from b have "b \<in> set (descendants soup)" using find_all_in_subset by auto
  from process_b_record [OF r this] show ?thesis .
qed

lemma category_pass_record:
  assumes "r \<in> set (category_pass soup [])"
  shows "(\<exists>h\<in>set (find_all_in ''h4'' soup). Category r = name_of (fst h)) \<and>
     (\<exists>p\<in>set (find_all_in ''dt'' soup).
     5 \<le> length (strip (get_text (fst p))) \<and> Pathway_ID r = ''>'' @ strip (get_text (fst p)) @ '' <'')"
proof -
  from assms obtain h d b where h: "h \<in> set (find_all_in ''h4'' soup)"
    and d: "find_next_sibling is_div_list (snd h) = Some d"
    and b: "b \<in> set (find_all ''b'' d)"
    and r: "r \<in> set (process_b (name_of (fst h)) b [])"
    by (auto simp: category_pass_records process_category_records split: option.splits)
  from h have "(fst h, snd h) \<in> set (descendants soup)" using find_all_in_subset by auto
  from container_descendants [OF this d]
  have "set (descendants (children d)) \<subseteq> set (descendants soup)" .
  moreover have "b \<in> set (descendants (children d))"
    using b find_all_in_subset by (auto simp: find_all_def)
  ultimately have "b \<in> set (descendants soup)" by auto
  from process_b_record [OF r this] h show ?thesis by auto
qed

text \<open>
  Claim C2, as stated: every bold label of the document gives at least one record with
  category \<open>N/A\<close> in the second pass. A label followed by a list container whose only
  term has fewer than 5 characters gives none: the whole run exports nothing.
\<close>

theorem label_without_record:
  "find_all_in ''b'' [Tag ''b'' [] [Text ''1.1 Carbohydrate metabolism''],
       Tag ''div'' [''list''] [Tag ''dl'' [] [Tag ''dt'' [] [Text ''T1''],
          Tag ''dd'' [] [Tag ''a'' [] [Text ''Glycolysis'']]]]]
     = [(Tag ''b'' [] [Text ''1.1 Carbohydrate metabolism''],
        [Tag ''div'' [''list''] [Tag ''dl'' [] [Tag ''dt'' [] [Text ''T1''],
          Tag ''dd'' [] [Tag ''a'' [] [Text ''Glycolysis'']]]]])]
   \<and> run_extractor [Tag ''b'' [] [Text ''1.1 Carbohydrate metabolism''],
       Tag ''div'' [''list''] [Tag ''dl'' [] [Tag ''dt'' [] [Text ''T1''],
          Tag ''dd'' [] [Tag ''a'' [] [Text ''Glycolysis'']]]]] = []"
proof -
  have t: "strip ''T1'' = ''T1''" by (simp add: strip_def isspace_def)
  show ?thesis
    by (simp add: run_extractor_def category_pass_def additional_pass_def find_all_in_def
       process_b_def find_next_sibling_def find_all_def extract_pathways_def extract_dt_def t)
qed

text \<open>
  Claim C2, amended: a bold label of the document that has a following list container
  with, in one of its definition lists, a term of at least 5 stripped characters followed
  by a \<open>dd\<close> sibling that holds a link, gives in the second pass the record of that term
  with category \<open>N/A\<close> and the label's name as sub-category; the full run is the output
  of the category-scoped pass followed by the output of the second pass, so it has at least
  as many records as the category-scoped pass alone.
\<close>

theorem additional_pass_emits:
  assumes "(b, sibs) \<in> set (find_all_in ''b'' soup)"
    and "find_next_sibling is_div_list sibs = Some d"
    and "(dl, dsibs) \<in> set (find_all ''dl'' d)"
    and "(dt, tsibs) \<in> set (find_all ''dt'' dl)"
    and "5 \<le> length (strip (get_text dt))"
    and "find_next_sibling (is_tag ''dd'') tsibs = Some dd"
    and "find_first ''a'' dd = Some a"
  shows "\<lparr>Category = ''N/A'', Sub_category = name_of b,
           Pathway_ID = ''>'' @ strip (get_text dt) @ '' <'',
           Pathway_Name = strip (get_text a)\<rparr> \<in> set (additional_pass soup [])
     \<and> run_extractor soup = category_pass soup [] @ additional_pass soup []
     \<and> length (category_pass soup []) \<le> length (run_extractor soup)"
proof -
  let ?r = "\<lparr>Category = ''N/A'', Sub_category = name_of b,
           Pathway_ID = ''>'' @ strip (get_text dt) @ '' <'',
           Pathway_Name = strip (get_text a)\<rparr>"
  have "extract_dt ''N/A'' (name_of b) (dt, tsibs) [] = [?r]"
    using assms(5,6,7) by (auto simp: extract_dt_def Let_def)
  then have "?r \<in> set (extract_dt ''N/A'' (name_of b) (dt, tsibs) [])" by simp
  with assms(2,3,4) have "?r \<in> set (process_b ''N/A'' (b, sibs) [])"
    by (force simp: process_b_records)
  with assms(1) have "?r \<in> set (additional_pass soup [])"
    by (force simp: additional_pass_records)
  then show ?thesis by (simp add: run_extractor_passes)
qed

theorem additional_pass_emits_witness:
  "\<lparr>Category = ''N/A'', Sub_category = ''Carbohydrate metabolism'',
     Pathway_ID = ''>ABC123 <'', Pathway_Name = ''Glycolysis''\<rparr>
     \<in> set (additional_pass (flat_document ''1. Metabolism'' ''1.1 Carbohydrate metabolism''
         (minimal_dl ''Glycolysis'' ''XYZ'' ''Short'')) [])"
proof -
  let ?dl = "minimal_dl ''Glycolysis'' ''XYZ'' ''Short''"
  let ?soup = "flat_document ''1. Metabolism'' ''1.1 Carbohydrate metabolism'' ?dl"
  let ?b = "Tag ''b'' [] [Text ''1.1 Carbohydrate metabolism'']"
  let ?d = "Tag ''div'' [''list''] [?dl]"
  let ?dt = "Tag ''dt'' [] [Text ''ABC123'']"
  let ?dd = "Tag ''dd'' [] [Tag ''a'' [] [Text ''Glycolysis'']]"
  let ?ts = "[?dd, Tag ''dt'' [] [Text ''XYZ''], Tag ''dd'' [] [Tag ''a'' [] [Text ''Short'']]]"
  have 1: "(?b, [?d]) \<in> set (find_all_in ''b'' ?soup)"
    by (simp add: find_all_in_def flat_document_def)
  have 2: "find_next_sibling is_div_list [?d] = Some ?d"
    by (simp add: find_next_sibling_def)
  have 3: "(?dl, []) \<in> set (find_all ''dl'' ?d)"
    by (simp add: find_all_def find_all_in_def minimal_dl_def)
  have 4: "(?dt, ?ts) \<in> set (find_all ''dt'' ?dl)"
    by (simp add: minimal_dl_terms)
  have 5: "5 \<le> length (strip (get_text ?dt))"
    by (simp add: strip_ABC123)
  have 6: "find_next_sibling (is_tag ''dd'') ?ts = Some ?dd"
    by (simp add: find_next_sibling_def)
  have 7: "find_first ''a'' ?dd = Some (Tag ''a'' [] [Text ''Glycolysis''])"
    by (simp add: find_first_def find_all_def find_all_in_def)
  have n: "name_of ?b = ''Carbohydrate metabolism''" "strip ''Glycolysis'' = ''Glycolysis''"
    by (simp_all add: name_of_def strip_def isspace_def after_first_space_def)
  from additional_pass_emits [OF 1 2 3 4 5 6 7] show ?thesis
    by (simp add: n strip_ABC123)
qed

text \<open>
  Claim C4, as stated: the category of a record is \<open>N/A\<close> exactly when the second pass
  emitted it. A heading whose text is \<open>N/A\<close> gives a record of the category-scoped pass
  with that category.
\<close>

theorem category_named_NA:
  "map Category (category_pass (nested_document ''N/A'' ''1.1 Carbohydrate metabolism''
      (minimal_dl ''Glycolysis'' ''XYZ'' ''Short'')) []) = [''N/A'']"
proof -
  have h: "length (strip ''XYZ'') < 5" by (simp add: strip_XYZ)
  have n: "strip (after_first_space (strip ''N/A'')) = ''N/A''"
    by (simp add: strip_def isspace_def after_first_space_def)
  show ?thesis by (simp add: nested_document_passes(1) [OF h] n)
qed

text \<open>
  Claim C4, amended: every record of a run has the Pathway ID \<open>>\<close> followed by \<open>t\<close>
  followed by a space and \<open><\<close>, where \<open>t\<close> is the stripped text of a \<open>dt\<close> element of the
  document and has at least 5 characters; every record of the second pass has the category
  \<open>N/A\<close>, and every record of the category-scoped pass has as category the name taken
  from an \<open>h4\<close> heading of the document.
\<close>

theorem record_invariant:
  "(\<forall>r\<in>set (run_extractor soup). \<exists>p\<in>set (find_all_in ''dt'' soup).
       5 \<le> length (strip (get_text (fst p)))
       \<and> Pathway_ID r = ''>'' @ strip (get_text (fst p)) @ '' <'')
   \<and> (\<forall>r\<in>set (additional_pass soup []). Category r = ''N/A'')
   \<and> (\<forall>r\<in>set (category_pass soup []). \<exists>h\<in>set (find_all_in ''h4'' soup).
         Category r = name_of (fst h))
   \<and> run_extractor soup = category_pass soup [] @ additional_pass soup []"
  using additional_pass_record [of _ soup] category_pass_record [of _ soup]
  by (auto simp: run_extractor_passes)

theorem record_invariant_witness:
  "(\<exists>p\<in>set (find_all_in ''dt'' (nested_document ''1. Metabolism'' ''1.1 Carbohydrate metabolism''
         (minimal_dl ''Glycolysis'' ''XYZ'' ''Short''))).
      5 \<le> length (strip (get_text (fst p))) \<and>
      ''>ABC123 <'' = ''>'' @ strip (get_text (fst p)) @ '' <'')
   \<and> (\<exists>h\<in>set (find_all_in ''h4'' (nested_document ''1. Metabolism'' ''1.1 Carbohydrate metabolism''
         (minimal_dl ''Glycolysis'' ''XYZ'' ''Short''))). ''Metabolism'' = name_of (fst h))"
proof -
  let ?soup = "nested_document ''1. Metabolism'' ''1.1 Carbohydrate metabolism''
         (minimal_dl ''Glycolysis'' ''XYZ'' ''Short'')"
  let ?r = "\<lparr>Category = ''Metabolism'', Sub_category = ''Carbohydrate metabolism'',
         Pathway_ID = ''>ABC123 <'', Pathway_Name = ''Glycolysis''\<rparr>"
  have h: "length (strip ''XYZ'') < 5" by (simp add: strip_XYZ)
  have n: "strip (after_first_space (strip ''1. Metabolism'')) = ''Metabolism''"
    "strip (after_first_space (strip ''1.1 Carbohydrate metabolism'')) = ''Carbohydrate metabolism''"
    "strip ''Glycolysis'' = ''Glycolysis''"
    by (simp_all add: strip_def isspace_def after_first_space_def)
  have c: "category_pass ?soup [] = [?r]"
    by (simp add: nested_document_passes(1) [OF h] n)
  then have "?r \<in> set (category_pass ?soup [])" "?r \<in> set (run_extractor ?soup)"
    by (simp_all add: run_extractor_passes)
  with record_invariant [of ?soup] show ?thesis by force
qed

text \<open>
  Claim C5, as stated: only the sibling immediately after a heading (or a label) is
  looked at, and a container that is a later sibling contributes nothing. With a paragraph
  between the heading and its container, and one between the label and its container, the
  category-scoped pass still emits the record.
\<close>

theorem later_sibling_container:
  "map Pathway_ID (category_pass
     [Tag ''h4'' [] [Text ''1. Metabolism''],
      Tag ''p'' [] [],
      Tag ''div'' [''list'']
        [Tag ''b'' [] [Text ''1.1 Carbohydrate metabolism''],
         Tag ''p'' [] [],
         Tag ''div'' [''list''] [minimal_dl ''Glycolysis'' ''XYZ'' ''Short'']]] [])
   = [''>ABC123 <'']"
proof -
  have h: "length (strip ''XYZ'') < 5" by (simp add: strip_XYZ)
  have no: "filter (\<lambda>p. tag_name (fst p) = Some ''h4'') (descendants [minimal_dl ''Glycolysis'' ''XYZ'' ''Short'']) = []"
    "filter (\<lambda>p. tag_name (fst p) = Some ''b'') (descendants [minimal_dl ''Glycolysis'' ''XYZ'' ''Short'']) = []"
    using minimal_dl_no_heading_or_label [of "''Glycolysis''" "''XYZ''" "''Short''"]
    by (simp_all add: find_all_in_def)
  have b: "process_b c (Tag ''b'' [] [Text ''1.1 Carbohydrate metabolism''],
      [Tag ''p'' [] [], Tag ''div'' [''list''] [minimal_dl ''Glycolysis'' ''XYZ'' ''Short'']]) []
    = process_b c (Tag ''b'' [] [Text ''1.1 Carbohydrate metabolism''],
      [Tag ''div'' [''list''] [minimal_dl ''Glycolysis'' ''XYZ'' ''Short'']]) []" for c
    by (simp add: process_b_def find_next_sibling_def)
  show ?thesis
    by (simp add: category_pass_def find_all_in_def no process_category_def
        find_next_sibling_def find_all_def b minimal_label_records [OF h])
qed

text \<open>
  Claim C5, amended: for a heading, and likewise for a bold label, the first of its
  following siblings that is a \<open>div\<close> of class \<open>list\<close> is its container, whatever
  precedes it among the siblings and whatever follows; the heading or label contributes
  no record when none of its following siblings is such a \<open>div\<close>.
\<close>

theorem first_matching_sibling:
  "((\<forall>n\<in>set before. \<not> is_div_list n) \<and> is_div_list d \<longrightarrow>
      process_category (h, before @ d # after) data = process_category (h, [d]) data
      \<and> process_b c (b, before @ d # after) data = process_b c (b, [d]) data)
   \<and> ((\<forall>n\<in>set sibs. \<not> is_div_list n) \<longrightarrow>
      process_category (h, sibs) data = data \<and> process_b c (b, sibs) data = data)"
proof (intro conjI impI)
  assume a: "(\<forall>n\<in>set before. \<not> is_div_list n) \<and> is_div_list d"
  then have f: "find_next_sibling is_div_list (before @ d # after) = Some d"
    using find_next_sibling_first [of before is_div_list d after] by simp
  from a have g: "find_next_sibling is_div_list [d] = Some d"
    by (simp add: find_next_sibling_def)
  show "process_category (h, before @ d # after) data = process_category (h, [d]) data"
    by (simp add: process_category_def f g)
  show "process_b c (b, before @ d # after) data = process_b c (b, [d]) data"
    by (simp add: process_b_def f g)
next
  assume "\<forall>n\<in>set sibs. \<not> is_div_list n"
  then have f: "find_next_sibling is_div_list sibs = None"
    by (rule find_next_sibling_none)
  show "process_category (h, sibs) data = data"
    by (simp add: process_category_def f)
  show "process_b c (b, sibs) data = data"
    by (simp add: process_b_def f)
qed

theorem first_matching_sibling_witness:
  "process_b ''Metabolism'' (Tag ''b'' [] [Text ''1.1 Carbohydrate metabolism''],
      [Tag ''p'' [] [], Tag ''div'' [''list''] [minimal_dl ''Glycolysis'' ''XYZ'' ''Short''],
       Tag ''div'' [''list''] []]) []
    = [\<lparr>Category = ''Metabolism'', Sub_category = ''Carbohydrate metabolism'',
         Pathway_ID = ''>ABC123 <'', Pathway_Name = ''Glycolysis''\<rparr>]
   \<and> process_b ''Metabolism'' (Tag ''b'' [] [Text ''1.1 Carbohydrate metabolism''],
      [Tag ''p'' [] [], minimal_dl ''Glycolysis'' ''XYZ'' ''Short'']) [] = []"
proof -
  let ?dl = "minimal_dl ''Glycolysis'' ''XYZ'' ''Short''"
  have h: "length (strip ''XYZ'') < 5" by (simp add: strip_XYZ)
  have n: "strip (after_first_space (strip ''1.1 Carbohydrate metabolism'')) = ''Carbohydrate metabolism''"
    "strip ''Glycolysis'' = ''Glycolysis''"
    by (simp_all add: strip_def isspace_def after_first_space_def)
  have 1: "(\<forall>n\<in>set [Tag ''p'' [] []]. \<not> is_div_list n) \<and> is_div_list (Tag ''div'' [''list''] [?dl])"
    by simp
  have 2: "\<forall>n\<in>set [Tag ''p'' [] [], ?dl]. \<not> is_div_list n"
    by (simp add: minimal_dl_def)
  from first_matching_sibling [of "[Tag ''p'' [] []]" "Tag ''div'' [''list''] [?dl]"
      "Tag ''h4'' [] [Text ''1. Metabolism'']" "[Tag ''div'' [''list''] []]" "[]" "''Metabolism''"
      "Tag ''b'' [] [Text ''1.1 Carbohydrate metabolism'']" "[Tag ''p'' [] [], ?dl]"] 1 2
  show ?thesis
    by (simp add: minimal_label_records [OF h] n)
qed

lemma strips:
  "strip ''AAAAA'' = ''AAAAA''" "strip ''BBBBB'' = ''BBBBB''" "strip ''CCCCC'' = ''CCCCC''"
  "strip ''Alpha'' = ''Alpha''" "strip ''Beta'' = ''Beta''" "strip ''Gamma'' = ''Gamma''"
  by (simp_all add: strip_def isspace_def)

lemma extract_dt_id:
  "map Pathway_ID (extract_dt c s p []) =
     (if 5 \<le> length (strip (get_text (fst p)))
         \<and> (case find_next_sibling (is_tag ''dd'') (snd p) of
              None \<Rightarrow> False | Some dd \<Rightarrow> find_first ''a'' dd \<noteq> None)
      then [''>'' @ strip (get_text (fst p)) @ '' <''] else [])"
  by (auto simp: extract_dt_def Let_def split: option.splits)

lemma extract_dl_ids:
  "map Pathway_ID (concat (map (\<lambda>p. extract_dt c s p []) xs)) =
     map (\<lambda>p. ''>'' @ strip (get_text (fst p)) @ '' <'')
       (filter (\<lambda>p. 5 \<le> length (strip (get_text (fst p)))
                 \<and> (case find_next_sibling (is_tag ''dd'') (snd p) of
                      None \<Rightarrow> False | Some dd \<Rightarrow> find_first ''a'' dd \<noteq> None)) xs)"
proof (induction xs)
  case Nil
  show ?case by simp
next
  case (Cons p xs)
  have "map Pathway_ID (concat (map (\<lambda>p. extract_dt c s p []) (p # xs)))
      = map Pathway_ID (extract_dt c s p []) @ map Pathway_ID (concat (map (\<lambda>p. extract_dt c s p []) xs))"
    by simp
  then show ?case unfolding Cons.IH extract_dt_id by simp
qed

text \<open>
  Claim C6, as stated: within each pass the records appear in the document order of the
  markup that produced them. In the first document the terms stand in the order
  \<open>AAAAA\<close>, \<open>BBBBB\<close> and the run emits \<open>BBBBB\<close> before \<open>AAAAA\<close>; in the second the
  terms stand in the order \<open>AAAAA\<close>, \<open>BBBBB\<close>, \<open>CCCCC\<close> and the run emits \<open>BBBBB\<close>
  again after \<open>CCCCC\<close>.
\<close>

theorem terms_out_of_document_order:
  "map (\<lambda>p. strip (get_text (fst p))) (find_all_in ''dt'' crossed_document) = [''AAAAA'', ''BBBBB'']
   \<and> map Pathway_ID (run_extractor crossed_document) = [''>BBBBB <'', ''>AAAAA <'']
   \<and> map (\<lambda>p. strip (get_text (fst p))) (find_all_in ''dt'' nested_dl_document)
        = [''AAAAA'', ''BBBBB'', ''CCCCC'']
   \<and> map Pathway_ID (run_extractor nested_dl_document)
        = [''>AAAAA <'', ''>BBBBB <'', ''>CCCCC <'', ''>BBBBB <'']"
  by (simp add: crossed_document_def nested_dl_document_def term_dl_def find_all_in_def
      run_extractor_def category_pass_def additional_pass_def process_b_def find_next_sibling_def
      find_all_def extract_pathways_def extract_dt_def find_first_def strips Let_def)

text \<open>
  Claim C6, amended: the output is the list of the records of the category-scoped pass
  followed by those of the second pass. Within a pass the records follow the nesting of
  the loops: the headings (labels) in document order, for a heading the labels of its
  container in document order, for a label the definition lists of its container in
  document order, and for one definition list its qualifying terms in document order, each
  giving one record (a term never gives more than one record per visit). Nothing is
  removed: the length of the output is the sum of the numbers of records of the headings
  and of the labels. Document order is the order of \<open>find_all\<close>: an element, then the
  elements inside it, then those of its later siblings.
\<close>

theorem records_in_loop_order:
  "run_extractor soup =
      concat (map (\<lambda>h. process_category h []) (find_all_in ''h4'' soup))
      @ concat (map (\<lambda>b. process_b ''N/A'' b []) (find_all_in ''b'' soup))
   \<and> process_category h [] =
      (case find_next_sibling is_div_list (snd h) of
         None \<Rightarrow> []
       | Some d \<Rightarrow> concat (map (\<lambda>b. process_b (name_of (fst h)) b []) (find_all ''b'' d)))
   \<and> process_b c b [] =
      (case find_next_sibling is_div_list (snd b) of
         None \<Rightarrow> []
       | Some d \<Rightarrow> concat (map (\<lambda>dl. extract_pathways [fst dl] c (name_of (fst b)) [])
                      (find_all ''dl'' d)))
   \<and> map Pathway_ID (extract_pathways [dl] c s []) =
      map (\<lambda>p. ''>'' @ strip (get_text (fst p)) @ '' <'')
        (filter (\<lambda>p. 5 \<le> length (strip (get_text (fst p)))
                  \<and> (case find_next_sibling (is_tag ''dd'') (snd p) of
                       None \<Rightarrow> False | Some dd \<Rightarrow> find_first ''a'' dd \<noteq> None))
           (find_all ''dt'' dl))
   \<and> length (extract_dt c s dt []) \<le> 1
   \<and> length (run_extractor soup) =
      sum_list (map (\<lambda>h. length (process_category h [])) (find_all_in ''h4'' soup))
      + sum_list (map (\<lambda>b. length (process_b ''N/A'' b [])) (find_all_in ''b'' soup))
   \<and> find_all_in nm (Tag n cs ch # rest) =
      (if n = nm then [(Tag n cs ch, rest)] else []) @ find_all_in nm ch @ find_all_in nm rest
   \<and> find_all_in nm (Text t # rest) = find_all_in nm rest"
proof -
  have run: "run_extractor soup =
      concat (map (\<lambda>h. process_category h []) (find_all_in ''h4'' soup))
      @ concat (map (\<lambda>b. process_b ''N/A'' b []) (find_all_in ''b'' soup))"
    unfolding run_extractor_passes category_pass_def additional_pass_def
    using fold_appending [of process_category, OF process_category_append]
      fold_appending [of "process_b ''N/A''", OF process_b_append]
    by simp
  have cat: "process_category h [] =
      (case find_next_sibling is_div_list (snd h) of
         None \<Rightarrow> []
       | Some d \<Rightarrow> concat (map (\<lambda>b. process_b (name_of (fst h)) b []) (find_all ''b'' d)))"
    using fold_appending [of "process_b (name_of (fst h))", OF process_b_append]
    by (simp add: process_category_def split: option.splits)
  have one: "extract_pathways [x] c s [] = fold (extract_dt c s) (find_all ''dt'' x) []" for x s
    by (simp add: extract_pathways_def)
  have lab: "process_b c b [] =
      (case find_next_sibling is_div_list (snd b) of
         None \<Rightarrow> []
       | Some d \<Rightarrow> concat (map (\<lambda>dl. extract_pathways [fst dl] c (name_of (fst b)) [])
                      (find_all ''dl'' d)))"
    using fold_appending [of "\<lambda>dl. fold (extract_dt c (name_of (fst b))) (find_all ''dt'' dl)",
        OF extract_dl_append]
    by (simp add: process_b_def extract_pathways_def one comp_def split: option.splits)
  have ids: "map Pathway_ID (extract_pathways [dl] c s []) =
      map (\<lambda>p. ''>'' @ strip (get_text (fst p)) @ '' <'')
        (filter (\<lambda>p. 5 \<le> length (strip (get_text (fst p)))
                  \<and> (case find_next_sibling (is_tag ''dd'') (snd p) of
                       None \<Rightarrow> False | Some dd \<Rightarrow> find_first ''a'' dd \<noteq> None))
           (find_all ''dt'' dl))"
    using fold_appending [of "extract_dt c s" "find_all ''dt'' dl" "[]", OF extract_dt_append]
      extract_dl_ids [of c s "find_all ''dt'' dl"]
    by (simp add: one)
  have most: "length (extract_dt c s dt []) \<le> 1"
    by (simp add: extract_dt_def Let_def split: option.splits)
  have len: "length (run_extractor soup) =
      sum_list (map (\<lambda>h. length (process_category h [])) (find_all_in ''h4'' soup))
      + sum_list (map (\<lambda>b. length (process_b ''N/A'' b [])) (find_all_in ''b'' soup))"
    by (simp add: run length_concat comp_def)
  have leaf: "find_all_in nm (Text t # rest) = find_all_in nm rest"
    by (simp add: find_all_in_def)
  show ?thesis using run cat lab ids most len find_all_in_Tag [of nm n cs ch rest] leaf by blast
qed

theorem records_in_loop_order_witness:
  "map Pathway_ID (run_extractor [Tag ''b'' [] [Text ''1.1 First''],
      Tag ''div'' [''list''] [term_dl [(''AAAAA'', ''Alpha''), (''T1'', ''Short''), (''BBBBB'', ''Beta'')],
                               term_dl [(''AAAAA'', ''Alpha'')]]])
    = [''>AAAAA <'', ''>BBBBB <'', ''>AAAAA <'']"
proof -
  let ?d1 = "term_dl [(''AAAAA'', ''Alpha''), (''T1'', ''Short''), (''BBBBB'', ''Beta'')]"
  let ?d2 = "term_dl [(''AAAAA'', ''Alpha'')]"
  let ?b = "(Tag ''b'' [] [Text ''1.1 First''], [Tag ''div'' [''list''] [?d1, ?d2]])"
  let ?soup = "[Tag ''b'' [] [Text ''1.1 First''], Tag ''div'' [''list''] [?d1, ?d2]]"
  have h4: "find_all_in ''h4'' ?soup = []"
    by (simp add: find_all_in_def term_dl_def)
  have bs: "find_all_in ''b'' ?soup = [?b]"
    by (simp add: find_all_in_def term_dl_def)
  have dls: "find_all ''dl'' (Tag ''div'' [''list''] [?d1, ?d2]) = [(?d1, [?d2]), (?d2, [])]"
    by (simp add: find_all_def find_all_in_def term_dl_def)
  have t: "strip ''T1'' = ''T1''" by (simp add: strip_def isspace_def)
  have a: "find_first ''a'' (Tag ''dd'' [] [Tag ''a'' [] [Text x]]) = Some (Tag ''a'' [] [Text x])" for x
    by (simp add: find_first_def find_all_def find_all_in_def)
  have q1: "map (\<lambda>p. ''>'' @ strip (get_text (fst p)) @ '' <'')
        (filter (\<lambda>p. 5 \<le> length (strip (get_text (fst p)))
                  \<and> (case find_next_sibling (is_tag ''dd'') (snd p) of
                       None \<Rightarrow> False | Some dd \<Rightarrow> find_first ''a'' dd \<noteq> None))
           (find_all ''dt'' ?d1)) = [''>AAAAA <'', ''>BBBBB <'']"
    by (simp add: find_all_def find_all_in_def term_dl_def find_next_sibling_def a strips t)
  have q2: "map (\<lambda>p. ''>'' @ strip (get_text (fst p)) @ '' <'')
        (filter (\<lambda>p. 5 \<le> length (strip (get_text (fst p)))
                  \<and> (case find_next_sibling (is_tag ''dd'') (snd p) of
                       None \<Rightarrow> False | Some dd \<Rightarrow> find_first ''a'' dd \<noteq> None))
           (find_all ''dt'' ?d2)) = [''>AAAAA <'']"
    by (simp add: find_all_def find_all_in_def term_dl_def find_next_sibling_def a strips)
  have i1: "map Pathway_ID (extract_pathways [?d1] ''N/A'' s []) = [''>AAAAA <'', ''>BBBBB <'']" for s
    using records_in_loop_order [where dl = ?d1 and c = "''N/A''" and s = s] q1 by simp
  have i2: "map Pathway_ID (extract_pathways [?d2] ''N/A'' s []) = [''>AAAAA <'']" for s
    using records_in_loop_order [where dl = ?d2 and c = "''N/A''" and s = s] q2 by simp
  have "run_extractor ?soup = process_b ''N/A'' ?b []"
    using records_in_loop_order [where soup = ?soup] by (simp add: h4 bs)
  also have "\<dots> = extract_pathways [?d1] ''N/A'' (name_of (fst ?b)) []
       @ extract_pathways [?d2] ''N/A'' (name_of (fst ?b)) []"
    using records_in_loop_order [where c = "''N/A''" and b = ?b]
    by (simp add: find_next_sibling_def dls)
  finally show ?thesis by (simp add: i1 i2)
qed

section \<open>Properties of the KEGG enrichment plot\<close>






subsection \<open>Cleaning the pathway IDs\<close>

lemma replace_ko_occurrence:
  "replace_ko (xs @ CHR ''k'' # CHR ''o'' # ys) = replace_ko xs @ replace_ko ys"
proof (induction xs rule: replace_ko.induct)
  case 1
  show ?case by simp
next
  case (2 c)
  show ?case by simp
next
  case (3 c d s)
  then show ?case by simp
qed

lemma count_k_replace_ko: "count_list (replace_ko s) CHR ''k'' \<le> count_list s CHR ''k''"
  by (induction s rule: replace_ko.induct) auto

lemma count_list_replicate_other: "c \<noteq> d \<Longrightarrow> count_list (replicate n c) d = 0"
  by (induction n) auto

lemma count_k_zfill: "count_list (zfill w s) CHR ''k'' = count_list s CHR ''k''"
  by (auto simp: zfill_def count_list_replicate_other split: list.splits)

lemma count_k_clean:
  "count_list (clean_Pathway_ID (xs @ CHR ''k'' # CHR ''o'' # ys)) CHR ''k''
     < count_list (xs @ CHR ''k'' # CHR ''o'' # ys) CHR ''k''"
proof -
  have "count_list (clean_Pathway_ID (xs @ CHR ''k'' # CHR ''o'' # ys)) CHR ''k''
      = count_list (replace_ko xs) CHR ''k'' + count_list (replace_ko ys) CHR ''k''"
    by (simp add: clean_Pathway_ID_def count_k_zfill replace_ko_occurrence)
  also have "\<dots> \<le> count_list xs CHR ''k'' + count_list ys CHR ''k''"
    using count_k_replace_ko [of xs] count_k_replace_ko [of ys] by simp
  also have "\<dots> < count_list (xs @ CHR ''k'' # CHR ''o'' # ys) CHR ''k''"
    by simp
  finally show ?thesis .
qed

text \<open>
  Claim C10: the cleaning step deletes an occurrence of \<open>ko\<close> at any position of the ID,
  not only at its start, before the result is padded with zeros to width 5: whatever
  precedes and follows the occurrence is cleaned on its own and the occurrence is gone,
  and an ID that contains \<open>ko\<close> anywhere is changed by the cleaning.
\<close>

theorem ko_removed_anywhere:
  "replace_ko (xs @ ''ko'' @ ys) = replace_ko xs @ replace_ko ys
   \<and> clean_Pathway_ID (xs @ ''ko'' @ ys) = zfill 5 (replace_ko xs @ replace_ko ys)
   \<and> clean_Pathway_ID (xs @ ''ko'' @ ys) \<noteq> xs @ ''ko'' @ ys"
proof -
  have "clean_Pathway_ID (xs @ CHR ''k'' # CHR ''o'' # ys) \<noteq> xs @ CHR ''k'' # CHR ''o'' # ys"
    using count_k_clean [of xs ys] by auto
  then show ?thesis
    by (simp add: clean_Pathway_ID_def replace_ko_occurrence)
qed

theorem ko_removed_anywhere_witness:
  "clean_Pathway_ID ''ko00010'' = ''00010'' \<and> clean_Pathway_ID ''04ko1'' = ''00041''
   \<and> clean_Pathway_ID ''04ko1'' \<noteq> ''04ko1''"
proof -
  have "clean_Pathway_ID ([] @ ''ko'' @ ''00010'') = ''00010''"
    using ko_removed_anywhere [of "[]" "''00010''"] by (simp add: zfill_def)
  moreover have "clean_Pathway_ID (''04'' @ ''ko'' @ ''1'') = ''00041''"
    using ko_removed_anywhere [of "''04''" "''1''"] by (simp add: zfill_def numeral_2_eq_2)
  ultimately show ?thesis by simp
qed

section \<open>Properties of the GO-terms plot\<close>

lemma set_nlargest: "set (nlargest n df) \<subseteq> set df"
  unfolding nlargest_def using set_take_subset [of n "sort_key (\<lambda>r. - Count r) df"] by simp

lemma go_table_row:
  assumes "r \<in> set (go_table csv)"
  shows "\<exists>q\<in>set csv. float_le (Pvalue q) (Finite 0.05) \<and> Pvalue r = Pvalue q \<and> Count r = Count q
     \<and> group_col r = group_col q \<and> neg_log_Pvalue r = neg_log10 (Pvalue q)
     \<and> Term r = take 35 (Term q)"
  using assms
  by (auto simp: go_table_def truncate_Term_def add_neg_log_def filter_Pvalue_def)

lemma filter_Pvalue_idem: "filter_Pvalue (filter_Pvalue csv) = filter_Pvalue csv"
  by (simp add: filter_Pvalue_def)

text \<open>
  Claim C8: a row of the input table is drawn only if its Pvalue is at most 0.05. Every
  row of the bars of a group, and every row for which the \<open>-log10\<close> column is computed,
  comes from an input row that passes the comparison \<open>Pvalue <= 0.05\<close>; the column is
  computed for exactly the rows that pass; and the table and the bars are those of the
  input with the other rows (a larger Pvalue, or NaN) taken out beforehand.
\<close>

theorem only_significant_rows_plotted:
  "(\<forall>r\<in>set (df_group_top csv g).
      float_le (Pvalue r) (Finite 0.05)
      \<and> (\<exists>q\<in>set csv. float_le (Pvalue q) (Finite 0.05) \<and> Pvalue r = Pvalue q
            \<and> Count r = Count q \<and> group_col r = group_col q
            \<and> neg_log_Pvalue r = neg_log10 (Pvalue q) \<and> Term r = take 35 (Term q)))
   \<and> (\<forall>r\<in>set (go_table csv). float_le (Pvalue r) (Finite 0.05))
   \<and> length (go_table csv) = length (filter (\<lambda>q. float_le (Pvalue q) (Finite 0.05)) csv)
   \<and> go_table csv = go_table (filter (\<lambda>q. float_le (Pvalue q) (Finite 0.05)) csv)
   \<and> df_group_top csv g = df_group_top (filter (\<lambda>q. float_le (Pvalue q) (Finite 0.05)) csv) g"
proof -
  have sub: "set (df_group_top csv g) \<subseteq> set (go_table csv)"
    unfolding df_group_top_def using set_nlargest by fastforce
  have tab: "\<forall>r\<in>set (go_table csv). float_le (Pvalue r) (Finite 0.05)"
    using go_table_row [of _ csv] by force
  have top: "\<forall>r\<in>set (df_group_top csv g).
      float_le (Pvalue r) (Finite 0.05)
      \<and> (\<exists>q\<in>set csv. float_le (Pvalue q) (Finite 0.05) \<and> Pvalue r = Pvalue q
            \<and> Count r = Count q \<and> group_col r = group_col q
            \<and> neg_log_Pvalue r = neg_log10 (Pvalue q) \<and> Term r = take 35 (Term q))"
  proof
    fix r assume "r \<in> set (df_group_top csv g)"
    then have r: "r \<in> set (go_table csv)" using sub by auto
    from go_table_row [OF r] show "float_le (Pvalue r) (Finite 0.05)
      \<and> (\<exists>q\<in>set csv. float_le (Pvalue q) (Finite 0.05) \<and> Pvalue r = Pvalue q
            \<and> Count r = Count q \<and> group_col r = group_col q
            \<and> neg_log_Pvalue r = neg_log10 (Pvalue q) \<and> Term r = take 35 (Term q))"
      by force
  qed
  have len: "length (go_table csv) = length (filter (\<lambda>q. float_le (Pvalue q) (Finite 0.05)) csv)"
    by (simp add: go_table_def truncate_Term_def add_neg_log_def filter_Pvalue_def)
  have idem: "go_table csv = go_table (filter (\<lambda>q. float_le (Pvalue q) (Finite 0.05)) csv)"
    using filter_Pvalue_idem [of csv] by (simp add: go_table_def filter_Pvalue_def)
  have idem2: "df_group_top csv g = df_group_top (filter (\<lambda>q. float_le (Pvalue q) (Finite 0.05)) csv) g"
    unfolding df_group_top_def using idem by simp
  show ?thesis using top tab len idem idem2 by blast
qed

theorem only_significant_rows_plotted_witness:
  "map Term (df_group_top
      [\<lparr>Term = ''defense response'', Count = 5, Pvalue = Finite 0.01, group_col = ''BP''\<rparr>,
       \<lparr>Term = ''cell wall'', Count = 9, Pvalue = Finite 0.2, group_col = ''BP''\<rparr>] ''BP'')
     = [''defense response'']
   \<and> float_le (Pvalue (hd (df_group_top
      [\<lparr>Term = ''defense response'', Count = 5, Pvalue = Finite 0.01, group_col = ''BP''\<rparr>,
       \<lparr>Term = ''cell wall'', Count = 9, Pvalue = Finite 0.2, group_col = ''BP''\<rparr>] ''BP'')))
      (Finite 0.05)"
proof -
  let ?csv = "[\<lparr>Term = ''defense response'', Count = 5, Pvalue = Finite 0.01, group_col = ''BP''\<rparr>,
       \<lparr>Term = ''cell wall'', Count = 9, Pvalue = Finite 0.2, group_col = ''BP''\<rparr>]"
  have f: "filter (\<lambda>q. float_le (Pvalue q) (Finite 0.05)) ?csv
     = [\<lparr>Term = ''defense response'', Count = 5, Pvalue = Finite 0.01, group_col = ''BP''\<rparr>]"
    by simp
  have t: "map Term (df_group_top [\<lparr>Term = ''defense response'', Count = 5, Pvalue = Finite 0.01,
       group_col = ''BP''\<rparr>] ''BP'') = [''defense response'']"
    by (simp add: df_group_top_def nlargest_def go_table_def truncate_Term_def add_neg_log_def
        filter_Pvalue_def)
  have m: "map Term (df_group_top ?csv ''BP'') = [''defense response'']"
    using only_significant_rows_plotted [of ?csv "''BP''"] f t by simp
  then have "df_group_top ?csv ''BP'' \<noteq> []" by auto
  then have "hd (df_group_top ?csv ''BP'') \<in> set (df_group_top ?csv ''BP'')" by simp
  with only_significant_rows_plotted [of ?csv "''BP''"] m show ?thesis by blast
qed

section \<open>Properties of the virus-copies plot\<close>







end
